theory Spec2Isabelle
  imports Complex_Main "HOL-Library.AList"
begin

section \<open>Numbers, errors and Python list slices\<close>

text \<open>
  Python's unbounded \<^verbatim>\<open>int\<close> is \<^typ>\<open>int\<close>. A Python \<^verbatim>\<open>float\<close> is modelled by
  \<^typ>\<open>real\<close>: the formulas are read in exact arithmetic, so rounding errors of the
  binary representation are outside the model. The exception is
  the classification of trends (\<^verbatim>\<open>calculate_trend_direction\<close> and
  \<^verbatim>\<open>_calculate_engagement_trend\<close>), whose answer turns on the comparison of rounded
  values with a threshold: there the arithmetic of the floats is a parameter of the model.
  Elsewhere the true division \<^verbatim>\<open>a / b\<close> is the division of \<^typ>\<open>real\<close>; wherever the
  divisor can be zero the model returns the error the interpreter raises. Messages of
  exceptions are dropped, only their class is kept.
\<close>

datatype py_error = ValueError | ZeroDivisionError

text \<open>
  \<^verbatim>\<open>round(x, 2)\<close>: the nearest multiple of 0.01, a tie going to the even neighbour.
  Python rounds the exact value of the float it is given. The model rounds the real
  number of the exact formula, which need not be a float: at a decimal tie such as 10.025
  the float lies beside the tie and Python's answer (10.03) can differ from the model's
  (10.02) in the last digit. Only the range of the rounded value and its value at 50 are
  used below.
\<close>

definition round_half_even :: "real \<Rightarrow> int" where
  "round_half_even y =
     (let f = \<lfloor>y\<rfloor>; d = y - of_int f
      in if d < 1 / 2 then f
         else if 1 / 2 < d then f + 1
         else if even f then f else f + 1)"

definition py_round2 :: "real \<Rightarrow> real" where
  "py_round2 x = of_int (round_half_even (x * 100)) / 100"

text \<open>
  A slice \<^verbatim>\<open>xs[i:j]\<close> with step 1: a negative bound counts from the end, and both
  bounds are clipped to the list.
\<close>

definition clip_index :: "int \<Rightarrow> int \<Rightarrow> int" where
  "clip_index n i = (if i < 0 then max 0 (i + n) else min i n)"

definition py_slice :: "'a list \<Rightarrow> int \<Rightarrow> int \<Rightarrow> 'a list" where
  "py_slice xs i j =
     (let n = int (length xs); a = clip_index n i; b = clip_index n j
      in take (nat (b - a)) (drop (nat a) xs))"

text \<open>\<^verbatim>\<open>xs[:j]\<close> and \<^verbatim>\<open>xs[i:]\<close>.\<close>

definition slice_to :: "'a list \<Rightarrow> int \<Rightarrow> 'a list" where
  "slice_to xs j = py_slice xs 0 j"

definition slice_from :: "'a list \<Rightarrow> int \<Rightarrow> 'a list" where
  "slice_from xs i = py_slice xs i (int (length xs))"


section \<open>utils.py: AnalyticsCalculator\<close>

text \<open>
  The local \<^verbatim>\<open>complexity_factor\<close> of \<^verbatim>\<open>calculate_engagement_score\<close>:
  \<^verbatim>\<open>min(1.2, 1 + (option_count - 2) * 0.1)\<close>.
\<close>

definition complexity_factor :: "int \<Rightarrow> real" where
  "complexity_factor option_count = min (12 / 10) (1 + of_int (option_count - 2) * (1 / 10))"

definition calculate_engagement_score :: "int \<Rightarrow> int \<Rightarrow> int \<Rightarrow> real \<Rightarrow> int \<Rightarrow> real" where
  "calculate_engagement_score votes views unique_voters poll_age_hours option_count =
     (if views = 0 then 0
      else
        let base_engagement = (of_int votes / of_int views) * 100;
            diversity_bonus = (if 0 < votes then (of_int unique_voters / of_int votes) * 10 else 0);
            recency_bonus = max 0 (10 - poll_age_hours / 24);
            score = (base_engagement + diversity_bonus + recency_bonus)
                      * complexity_factor option_count
        in min 100 (max 0 score))"

text \<open>
  The arithmetic of the floats, as far as the classification of trends uses it: the
  operations \<^verbatim>\<open>+\<close>, \<^verbatim>\<open>-\<close>, \<^verbatim>\<open>*\<close>, \<^verbatim>\<open>/\<close>, the unary minus, the comparison
  \<^verbatim>\<open><\<close> (\<^verbatim>\<open>a > b\<close> is \<^verbatim>\<open>b < a\<close>), the conversion of an \<^verbatim>\<open>int\<close> operand and the value
  of a decimal literal. Nothing is fixed about them, so whatever is proved for every arithmetic
  holds for the binary floats of the interpreter with their rounding, infinities and NaN.
  \<open>exact_arith\<close> is the arithmetic of the real numbers, without rounding.
\<close>

record 'f arith =
  fadd :: "'f \<Rightarrow> 'f \<Rightarrow> 'f"
  fsub :: "'f \<Rightarrow> 'f \<Rightarrow> 'f"
  fmul :: "'f \<Rightarrow> 'f \<Rightarrow> 'f"
  fdiv :: "'f \<Rightarrow> 'f \<Rightarrow> 'f"
  fneg :: "'f \<Rightarrow> 'f"
  fless :: "'f \<Rightarrow> 'f \<Rightarrow> bool"
  fint :: "int \<Rightarrow> 'f"
  flit :: "real \<Rightarrow> 'f"

definition exact_arith :: "real arith" where
  "exact_arith = \<lparr>fadd = (\<lambda>x y. x + y), fsub = (\<lambda>x y. x - y), fmul = (\<lambda>x y. x * y),
                   fdiv = (\<lambda>x y. x / y), fneg = (\<lambda>x. - x), fless = (\<lambda>x y. x < y),
                   fint = of_int, flit = (\<lambda>x. x)\<rparr>"

text \<open>\<^verbatim>\<open>sum(xs)\<close>: from the \<^verbatim>\<open>int\<close> 0, one addition per element, left to right.\<close>

definition fsum :: "'f arith \<Rightarrow> 'f list \<Rightarrow> 'f" where
  "fsum A xs = foldl (fadd A) (fint A 0) xs"

text \<open>
  \<^verbatim>\<open>calculate_trend_direction\<close>. The division by \<^verbatim>\<open>window_size\<close> raises for a window
  size of 0; the division by \<^verbatim>\<open>first_window\<close> is under the guard \<^verbatim>\<open>first_window > 0\<close>.
  In the other branch \<^verbatim>\<open>change_ratio\<close> is the \<^verbatim>\<open>int\<close> 0.
\<close>

definition calculate_trend_direction :: "'f arith \<Rightarrow> 'f list \<Rightarrow> int \<Rightarrow> py_error + string" where
  "calculate_trend_direction A values window_size =
     (if int (length values) < window_size * 2 then Inr ''stable''
      else if window_size = 0 then Inl ZeroDivisionError
      else
        let first_window = fdiv A (fsum A (slice_to values window_size)) (fint A window_size);
            last_window = fdiv A (fsum A (slice_from values (- window_size)))
                            (fint A window_size);
            threshold = flit A (1 / 10);
            change_ratio = (if fless A (fint A 0) first_window
                            then fdiv A (fsub A last_window first_window) first_window
                            else fint A 0)
        in if fless A threshold change_ratio then Inr ''increasing''
           else if fless A change_ratio (fneg A threshold) then Inr ''decreasing''
           else Inr ''stable'')"

definition calculate_percentile_rank :: "real \<Rightarrow> real list \<Rightarrow> real" where
  "calculate_percentile_rank v dataset =
     (if dataset = [] then 50
      else
        let sorted_data = sort dataset;
            count_below = length (filter (\<lambda>x. x < v) sorted_data);
            count_equal = length (filter (\<lambda>x. x = v) sorted_data);
            percentile = (of_nat count_below + of_nat count_equal / 2)
                           / of_nat (length sorted_data) * 100
        in py_round2 percentile)"


section \<open>utils.py: DataAggregator\<close>

text \<open>
  The loop of \<^verbatim>\<open>calculate_moving_average\<close> runs over \<^verbatim>\<open>range(len(values) - window_size + 1)\<close>
  and divides by \<^verbatim>\<open>window_size\<close> in every round; the range is never empty once the
  first test has failed, so a window size of 0 raises in the first round.
\<close>

definition calculate_moving_average :: "real list \<Rightarrow> int \<Rightarrow> py_error + real list" where
  "calculate_moving_average values window_size =
     (if int (length values) < window_size then Inr values
      else if window_size = 0 then Inl ZeroDivisionError
      else Inr (map (\<lambda>i. sum_list (py_slice values (int i) (int i + window_size))
                            / of_int window_size)
                  [0 ..< nat (int (length values) - window_size + 1)]))"

definition detect_anomalies :: "real list \<Rightarrow> real \<Rightarrow> (nat \<times> real) list" where
  "detect_anomalies values threshold_std =
     (if length values < 3 then []
      else
        let mean_val = sum_list values / of_nat (length values);
            variance = sum_list (map (\<lambda>x. (x - mean_val)\<^sup>2) values) / of_nat (length values);
            std_dev = sqrt variance;
            threshold = threshold_std * std_dev
        in filter (\<lambda>(i, v). threshold < \<bar>v - mean_val\<bar>) (enumerate 0 values))"


section \<open>The collaborating store\<close>

text \<open>
  The entities behind \<^verbatim>\<open>api.models\<close>, with the columns that the modelled queries of
  \<^verbatim>\<open>services.py\<close> read. A \<^verbatim>\<open>datetime\<close> is the number of microseconds since the
  epoch and a \<^verbatim>\<open>timedelta\<close> a difference of two of them. The view counter of a
  poll is read with \<^verbatim>\<open>getattr(poll, 'view_count', 0)\<close>: \<open>None\<close> stands for a poll
  without the attribute.
\<close>

record poll =
  p_id :: int
  p_question :: string
  p_created_at :: int
  p_owner_id :: int
  p_view_count :: "int option"

record poll_option =
  o_id :: int
  o_text :: string
  o_poll_id :: int

record vote =
  v_id :: int
  v_option_id :: int
  v_user_id :: int
  v_created_at :: int

text \<open>
  The store: its three tables and, as \<open>db_group_order\<close>, the order in which its engine
  returns the groups of a grouped query that asks for no order. SQL leaves that order to the
  engine; nothing is fixed about it here, and a theorem that needs the engine to return
  every group once says so.
\<close>

record database =
  db_polls :: "poll list"
  db_options :: "poll_option list"
  db_votes :: "vote list"
  db_group_order :: "(int \<times> string) list \<Rightarrow> (int \<times> string) list"

definition total_seconds :: "int \<Rightarrow> real" where
  "total_seconds td = of_int td / 1000000"

definition timedelta_days :: "int \<Rightarrow> int" where
  "timedelta_days td = td div 86400000000"

definition view_count_of :: "poll \<Rightarrow> int" where
  "view_count_of p = (case p_view_count p of None \<Rightarrow> 0 | Some n \<Rightarrow> n)"

text \<open>\<^verbatim>\<open>query(Poll).filter(Poll.id == poll_id).first()\<close>\<close>

definition first_poll :: "database \<Rightarrow> int \<Rightarrow> poll option" where
  "first_poll db poll_id = find (\<lambda>p. p_id p = poll_id) (db_polls db)"

text \<open>
  \<^verbatim>\<open>query(func.count(Vote.id)).join(Option).filter(Option.poll_id == poll_id).scalar() or 0\<close>:
  the rows of the inner join of votes and options that belong to the poll.
\<close>

definition poll_vote_rows :: "database \<Rightarrow> int \<Rightarrow> (vote \<times> poll_option) list" where
  "poll_vote_rows db poll_id =
     [(v, opt). v \<leftarrow> db_votes db, opt \<leftarrow> db_options db,
              o_id opt = v_option_id v \<and> o_poll_id opt = poll_id]"

definition count_poll_votes :: "database \<Rightarrow> int \<Rightarrow> int" where
  "count_poll_votes db poll_id = int (length (poll_vote_rows db poll_id))"


section \<open>services.py: result objects\<close>

record poll_summary =
  ps_id :: int
  ps_question :: string
  ps_created_at :: int

record daily_vote_count =
  dv_date :: string
  dv_vote_count :: int
  dv_unique_voters :: int

record poll_analytics =
  pa_poll_id :: int
  pa_poll_question :: string
  pa_total_votes :: int
  pa_engagement_rate :: real
  pa_vote_distribution :: "(string \<times> int) list"
  pa_performance_score :: real
  pa_created_at :: int
  pa_peak_voting_time :: "int option"
  pa_total_views :: int
  pa_unique_voters :: int
  pa_vote_velocity :: real


section \<open>services.py: private helpers of AnalyticsService\<close>

text \<open>
  \<^verbatim>\<open>_get_vote_distribution\<close>. The query is an outer join of the poll's options with
  their votes, grouped by \<^verbatim>\<open>(Option.id, Option.text)\<close>, and counts the votes of each
  group: one row \<open>(text, count)\<close> per group, an option without votes with count 0. The rows
  come in the order \<open>db_group_order\<close> of the engine. They then fill a dictionary, one
  assignment per row in the order of the rows. The dictionary is an association list:
  \<^const>\<open>AList.update\<close> overwrites the value of a key that is present and appends a new
  key, as the assignment to a Python \<^verbatim>\<open>dict\<close>.
\<close>

definition vote_distribution_groups :: "database \<Rightarrow> int \<Rightarrow> (int \<times> string) list" where
  "vote_distribution_groups db poll_id =
     remdups (map (\<lambda>opt. (o_id opt, o_text opt))
                (filter (\<lambda>opt. o_poll_id opt = poll_id) (db_options db)))"

definition group_vote_count :: "database \<Rightarrow> int \<Rightarrow> int \<times> string \<Rightarrow> int" where
  "group_vote_count db poll_id g =
     int (length [(opt, v). opt \<leftarrow> filter (\<lambda>opt. o_poll_id opt = poll_id) (db_options db),
                            v \<leftarrow> db_votes db,
                            (o_id opt, o_text opt) = g \<and> v_option_id v = o_id opt])"

definition vote_distribution_rows :: "database \<Rightarrow> int \<Rightarrow> (string \<times> int) list" where
  "vote_distribution_rows db poll_id =
     map (\<lambda>g. (snd g, group_vote_count db poll_id g))
       (db_group_order db (vote_distribution_groups db poll_id))"

definition dict_of_rows :: "('k \<times> 'v) list \<Rightarrow> ('k \<times> 'v) list" where
  "dict_of_rows rows = fold (\<lambda>(k, v) d. AList.update k v d) rows []"

definition get_vote_distribution :: "database \<Rightarrow> int \<Rightarrow> (string \<times> int) list" where
  "get_vote_distribution db poll_id = dict_of_rows (vote_distribution_rows db poll_id)"

definition get_most_popular_poll :: "database \<Rightarrow> poll list \<Rightarrow> poll_summary option" where
  "get_most_popular_poll db ps =
     (if ps = [] then None
      else
        let (max_votes, most_popular) =
              fold (\<lambda>p (max_votes, most_popular).
                      let vote_count = count_poll_votes db (p_id p)
                      in if max_votes < vote_count then (vote_count, Some p)
                         else (max_votes, most_popular))
                   ps (0, None)
        in case most_popular of
             Some p \<Rightarrow> Some \<lparr>ps_id = p_id p, ps_question = p_question p,
                              ps_created_at = p_created_at p\<rparr>
           | None \<Rightarrow> None)"

definition calculate_poll_performance_score :: "database \<Rightarrow> int \<Rightarrow> int \<Rightarrow> real" where
  "calculate_poll_performance_score db now poll_id =
     (case first_poll db poll_id of
        None \<Rightarrow> 0
      | Some p \<Rightarrow>
          let vote_count = count_poll_votes db poll_id;
              poll_views = view_count_of p;
              engagement_rate = (if 0 < poll_views
                                 then of_int vote_count / of_int poll_views else 0);
              days_old = timedelta_days (now - p_created_at p);
              recency_factor = max 0 (1 - of_int days_old / 30);
              score = min 100 (of_int vote_count * 10 + engagement_rate * 50
                                 + recency_factor * 20)
          in py_round2 score)"

text \<open>
  \<^verbatim>\<open>_get_peak_voting_time\<close>: the first row of the poll's votes ordered by time,
  latest first, which is the largest timestamp.
\<close>

definition get_peak_voting_time :: "database \<Rightarrow> int \<Rightarrow> int option" where
  "get_peak_voting_time db poll_id =
     (case map (\<lambda>(v, opt). v_created_at v) (poll_vote_rows db poll_id) of
        [] \<Rightarrow> None
      | t # ts \<Rightarrow> Some (fold max ts t))"

text \<open>
  \<^verbatim>\<open>_calculate_engagement_trend\<close>. The vote counts are \<^verbatim>\<open>int\<close>s and so are their
  sums; each average is the quotient of two \<^verbatim>\<open>int\<close>s, a float.
\<close>

definition calculate_engagement_trend :: "'f arith \<Rightarrow> daily_vote_count list \<Rightarrow> string" where
  "calculate_engagement_trend A daily_votes =
     (if length daily_votes < 2 then ''stable''
      else
        let half = int (length daily_votes) div 2;
            first_half_avg =
              fdiv A (fint A (sum_list (map dv_vote_count (slice_to daily_votes half))))
                (fint A half);
            second_half_avg =
              fdiv A (fint A (sum_list (map dv_vote_count (slice_from daily_votes half))))
                (fint A (int (length daily_votes) - half))
        in if fless A (fmul A first_half_avg (flit A (11 / 10))) second_half_avg
           then ''increasing''
           else if fless A second_half_avg (fmul A first_half_avg (flit A (9 / 10)))
           then ''decreasing''
           else ''stable'')"


section \<open>services.py: the analytics products\<close>

text \<open>
  \<^verbatim>\<open>get_user_analytics_overview\<close> is not modelled. As the file stands, the statements
  of its body after the first query of the votes are indented less than the \<^verbatim>\<open>try\<close>
  they belong to, so the function has no reading as Python; it is the place that passes the
  polls of the user to \<^verbatim>\<open>_get_most_popular_poll\<close> and stores the answer as
  \<^verbatim>\<open>most_popular_poll\<close>.
\<close>

text \<open>\<^verbatim>\<open>get_poll_analytics\<close>, with the reading \<open>now\<close> of the clock as a parameter.\<close>

definition get_poll_analytics :: "database \<Rightarrow> int \<Rightarrow> int \<Rightarrow> py_error + poll_analytics" where
  "get_poll_analytics db now poll_id =
     (case first_poll db poll_id of
        None \<Rightarrow> Inl ValueError
      | Some p \<Rightarrow>
          let vote_distribution = get_vote_distribution db poll_id;
              total_votes = sum_list (map snd vote_distribution);
              poll_views = view_count_of p;
              engagement_rate = (if 0 < poll_views
                                 then of_int total_votes / of_int poll_views * 100 else 0);
              performance_score = calculate_poll_performance_score db now poll_id;
              unique_voters =
                int (length (remdups (map (\<lambda>(v, opt). v_user_id v) (poll_vote_rows db poll_id))));
              hours_since_creation = total_seconds (now - p_created_at p) / 3600;
              vote_velocity = (if 0 < hours_since_creation
                               then of_int total_votes / hours_since_creation else 0);
              peak_voting_time = get_peak_voting_time db poll_id
          in Inr \<lparr>pa_poll_id = poll_id, pa_poll_question = p_question p,
                   pa_total_votes = total_votes, pa_engagement_rate = engagement_rate,
                   pa_vote_distribution = vote_distribution,
                   pa_performance_score = performance_score,
                   pa_created_at = p_created_at p, pa_peak_voting_time = peak_voting_time,
                   pa_total_views = poll_views, pa_unique_voters = unique_voters,
                   pa_vote_velocity = vote_velocity\<rparr>)"


section \<open>The formulas of the specification\<close>

text \<open>\<^verbatim>\<open>clamp\<close> of \<^verbatim>\<open>utils.py\<close>: \<^verbatim>\<open>max(min_val, min(max_val, value))\<close>.\<close>

definition clamp :: "real \<Rightarrow> real \<Rightarrow> real \<Rightarrow> real" where
  "clamp v min_val max_val = max min_val (min max_val v)"

text \<open>
  The engagement score as the specification words it: the clamp to 0 and 100 of the sum of
  base engagement (0 if there are no views), diversity bonus (0 if there are no votes) and
  recency bonus, times the complexity factor.
\<close>

definition engagement_score_spec :: "int \<Rightarrow> int \<Rightarrow> int \<Rightarrow> real \<Rightarrow> int \<Rightarrow> real" where
  "engagement_score_spec votes views unique_voters poll_age_hours option_count =
     (let base_engagement = (if views = 0 then 0 else of_int votes / of_int views * 100);
          diversity_bonus = (if votes = 0 then 0 else of_int unique_voters / of_int votes * 10);
          recency_bonus = max 0 (10 - poll_age_hours / 24);
          complexity = min (12 / 10) (1 + (of_int option_count - 2) * (1 / 10))
      in clamp ((base_engagement + diversity_bonus + recency_bonus) * complexity) 0 100)"

text \<open>
  The rule of the voting trends as the specification words it, for the mean of an earlier
  and the mean of a later part of a series: increasing if the later mean is above 1.10
  times the earlier one, decreasing if it is below 0.90 times the earlier one, stable
  otherwise; the product and the comparison are those of the arithmetic \<open>A\<close>.
\<close>

definition trend_rule_spec :: "'f arith \<Rightarrow> 'f \<Rightarrow> 'f \<Rightarrow> string" where
  "trend_rule_spec A first_mean second_mean =
     (if fless A (fmul A first_mean (flit A (11 / 10))) second_mean then ''increasing''
      else if fless A second_mean (fmul A first_mean (flit A (9 / 10))) then ''decreasing''
      else ''stable'')"

text \<open>
  The mean of the first \<open>w\<close> and of the last \<open>w\<close> values of a series, computed in the
  arithmetic \<open>A\<close> as the code computes them.
\<close>

definition first_window_mean :: "'f arith \<Rightarrow> 'f list \<Rightarrow> int \<Rightarrow> 'f" where
  "first_window_mean A values w = fdiv A (fsum A (take (nat w) values)) (fint A w)"

definition last_window_mean :: "'f arith \<Rightarrow> 'f list \<Rightarrow> int \<Rightarrow> 'f" where
  "last_window_mean A values w =
     fdiv A (fsum A (drop (length values - nat w) values)) (fint A w)"

text \<open>
  The classification by the relative change of the last mean against the first, in the
  arithmetic \<open>A\<close>: increasing above the threshold 0.1, decreasing below its negative.
\<close>

definition classify_change :: "'f arith \<Rightarrow> 'f \<Rightarrow> 'f \<Rightarrow> string" where
  "classify_change A first_mean last_mean =
     (let change_ratio = fdiv A (fsub A last_mean first_mean) first_mean
      in if fless A (flit A (1 / 10)) change_ratio then ''increasing''
         else if fless A change_ratio (fneg A (flit A (1 / 10))) then ''decreasing''
         else ''stable'')"

text \<open>
  The rows of a query result that a later row with the same key overwrites when the rows
  fill a dictionary.
\<close>

fun overwritten_rows :: "('k \<times> 'v) list \<Rightarrow> ('k \<times> 'v) list" where
  "overwritten_rows [] = []"
| "overwritten_rows (r # rs) =
     (if fst r \<in> fst ` set rs then r # overwritten_rows rs else overwritten_rows rs)"


text \<open>
  The number of votes cast for the option with the id \<open>oid\<close>, and the option whose row for
  the text \<open>t\<close> the engine returns last.
\<close>

definition option_vote_count :: "database \<Rightarrow> int \<Rightarrow> int" where
  "option_vote_count db oid = int (length (filter (\<lambda>v. v_option_id v = oid) (db_votes db)))"

definition last_option_with_text :: "database \<Rightarrow> int \<Rightarrow> string \<Rightarrow> int" where
  "last_option_with_text db poll_id t =
     fst (last (filter (\<lambda>g. snd g = t)
                  (db_group_order db (vote_distribution_groups db poll_id))))"


section \<open>Three small stores\<close>

text \<open>The engine of each returns the groups in the order of the options table.\<close>

text \<open>
  A poll created at instant 0 that was viewed once and has two votes, cast after ten and
  after twenty minutes.
\<close>

definition tea_poll_db :: database where
  "tea_poll_db =
     \<lparr>db_polls = [\<lparr>p_id = 1, p_question = ''Tea or coffee?'', p_created_at = 0,
                    p_owner_id = 1, p_view_count = Some 1\<rparr>],
      db_options = [\<lparr>o_id = 1, o_text = ''Tea'', o_poll_id = 1\<rparr>,
                    \<lparr>o_id = 2, o_text = ''Coffee'', o_poll_id = 1\<rparr>],
      db_votes = [\<lparr>v_id = 1, v_option_id = 1, v_user_id = 2, v_created_at = 600000000\<rparr>,
                  \<lparr>v_id = 2, v_option_id = 2, v_user_id = 3, v_created_at = 1200000000\<rparr>],
      db_group_order = (\<lambda>gs. gs)\<rparr>"

text \<open>A poll with two options of the text Yes, the first with two votes, the second with one.\<close>

definition same_text_db :: database where
  "same_text_db =
     \<lparr>db_polls = [\<lparr>p_id = 1, p_question = ''Agree?'', p_created_at = 0,
                    p_owner_id = 1, p_view_count = Some 10\<rparr>],
      db_options = [\<lparr>o_id = 1, o_text = ''Yes'', o_poll_id = 1\<rparr>,
                    \<lparr>o_id = 2, o_text = ''Yes'', o_poll_id = 1\<rparr>,
                    \<lparr>o_id = 3, o_text = ''No'', o_poll_id = 1\<rparr>],
      db_votes = [\<lparr>v_id = 1, v_option_id = 1, v_user_id = 2, v_created_at = 10\<rparr>,
                  \<lparr>v_id = 2, v_option_id = 1, v_user_id = 3, v_created_at = 20\<rparr>,
                  \<lparr>v_id = 3, v_option_id = 2, v_user_id = 4, v_created_at = 30\<rparr>],
      db_group_order = (\<lambda>gs. gs)\<rparr>"



section \<open>Rounding and slices\<close>

lemma round_half_even_nonneg: "0 \<le> y \<Longrightarrow> 0 \<le> round_half_even y"
  by (auto simp: round_half_even_def Let_def)

lemma round_half_even_le:
  assumes "y \<le> of_int n"
  shows "round_half_even y \<le> n"
proof -
  have f: "\<lfloor>y\<rfloor> \<le> n" using assms by (simp add: floor_le_iff)
  have "\<lfloor>y\<rfloor> + 1 \<le> n" if "1 / 2 \<le> y - of_int \<lfloor>y\<rfloor>"
  proof -
    from that have "of_int \<lfloor>y\<rfloor> < y" by linarith
    with assms have "(of_int \<lfloor>y\<rfloor> :: real) < of_int n" by linarith
    then show ?thesis by simp
  qed
  with f show ?thesis
    by (auto simp: round_half_even_def Let_def)
qed

lemma py_round2_range:
  assumes "0 \<le> x" "x \<le> 100"
  shows "0 \<le> py_round2 x \<and> py_round2 x \<le> 100"
proof -
  have "0 \<le> round_half_even (x * 100)"
    using assms by (simp add: round_half_even_nonneg)
  moreover have "round_half_even (x * 100) \<le> 10000"
    using assms by (intro round_half_even_le) simp
  ultimately show ?thesis by (simp add: py_round2_def)
qed

lemma py_round2_50: "py_round2 50 = 50"
  by (simp add: py_round2_def round_half_even_def)

lemma slice_to_take: "0 \<le> w \<Longrightarrow> slice_to xs w = take (nat w) xs"
  by (auto simp: slice_to_def py_slice_def clip_index_def Let_def min_def)

lemma slice_from_last:
  "0 < w \<Longrightarrow> w \<le> int (length xs) \<Longrightarrow> slice_from xs (- w) = drop (length xs - nat w) xs"
  by (auto simp: slice_from_def py_slice_def clip_index_def Let_def max_def
      nat_diff_distrib' algebra_simps)


section \<open>The dictionary of the vote distribution\<close>

lemma dict_of_rows_snoc: "dict_of_rows (rows @ [(k, v)]) = AList.update k v (dict_of_rows rows)"
  by (simp add: dict_of_rows_def)

lemma distinct_dict_of_rows: "distinct (map fst (dict_of_rows rows))"
  by (induction rows rule: rev_induct) (auto simp: dict_of_rows_def distinct_update)

lemma map_of_dict_of_rows: "map_of (dict_of_rows rows) = map_of (rev rows)"
proof (induction rows rule: rev_induct)
  case Nil
  then show ?case by (simp add: dict_of_rows_def)
next
  case (snoc r rows)
  obtain k v where r: "r = (k, v)" by (cases r)
  show ?case unfolding r dict_of_rows_snoc by (simp add: update_conv' snoc)
qed

lemma last_row_wins:
  assumes "rows = xs @ (t, c) # ys" "t \<notin> fst ` set ys"
  shows "map_of (dict_of_rows rows) t = Some c"
proof -
  have "map_of (rev ys) t = None"
    using assms(2) by (simp add: map_of_eq_None_iff)
  then show ?thesis
    by (simp add: map_of_dict_of_rows assms(1) map_add_def)
qed

lemma set_update_subset: "set (AList.update k v al) \<subseteq> insert (k, v) (set al)"
  by (induction al) auto

lemma set_dict_of_rows: "set (dict_of_rows rows) \<subseteq> set rows"
proof (induction rows rule: rev_induct)
  case Nil
  then show ?case by (simp add: dict_of_rows_def)
next
  case (snoc r rows)
  obtain k v where r: "r = (k, v)" by (cases r)
  show ?case
    unfolding r dict_of_rows_snoc
    using set_update_subset [of k v "dict_of_rows rows"] snoc by auto
qed

lemma sum_update:
  "sum_list (map snd (AList.update k v al))
     = sum_list (map snd al) - (case map_of al k of Some old \<Rightarrow> old | None \<Rightarrow> 0) + (v::int)"
  by (induction al) auto

lemma sum_overwritten_snoc:
  "sum_list (map snd (overwritten_rows (rows @ [(k, v)])))
     = sum_list (map snd (overwritten_rows rows))
       + (case map_of (rev rows) k of Some old \<Rightarrow> old | None \<Rightarrow> (0::int))"
proof (induction rows)
  case Nil
  then show ?case by simp
next
  case (Cons r rows)
  obtain a b where r: "r = (a, b)" by (cases r)
  show ?case
  proof (cases "map_of (rev rows) k")
    case None
    then have "k \<notin> fst ` set rows" by (simp add: map_of_eq_None_iff)
    with None Cons show ?thesis by (auto simp: r map_add_def)
  next
    case (Some old)
    then have "k \<in> fst ` set rows"
      by (metis map_of_eq_None_iff option.distinct(1) set_rev)
    with Some Cons show ?thesis by (auto simp: r map_add_def)
  qed
qed

lemma sum_dict_of_rows:
  "sum_list (map snd (dict_of_rows rows))
     = sum_list (map snd rows) - sum_list (map snd (overwritten_rows rows :: ('k \<times> int) list))"
proof (induction rows rule: rev_induct)
  case Nil
  then show ?case by (simp add: dict_of_rows_def)
next
  case (snoc r rows)
  obtain k v where r: "r = (k, v)" by (cases r)
  show ?case
    unfolding r dict_of_rows_snoc sum_update sum_overwritten_snoc
    by (simp add: snoc map_of_dict_of_rows)
qed

lemma vote_distribution_rows_nonneg:
  "(t, c) \<in> set (vote_distribution_rows db poll_id) \<Longrightarrow> 0 \<le> c"
  by (auto simp: vote_distribution_rows_def group_vote_count_def)

lemma total_votes_nonneg: "0 \<le> sum_list (map snd (get_vote_distribution db poll_id))"
proof (rule sum_list_nonneg)
  fix c
  assume "c \<in> set (map snd (get_vote_distribution db poll_id))"
  then obtain t where "(t, c) \<in> set (get_vote_distribution db poll_id)" by auto
  then have "(t, c) \<in> set (vote_distribution_rows db poll_id)"
    using set_dict_of_rows by (auto simp: get_vote_distribution_def)
  then show "0 \<le> c" by (rule vote_distribution_rows_nonneg)
qed


section \<open>The three stores, evaluated\<close>

lemma tea_poll_first: "first_poll tea_poll_db 1 = Some (hd (db_polls tea_poll_db))"
  by (simp add: first_poll_def tea_poll_db_def)

lemma tea_poll_rows: "vote_distribution_rows tea_poll_db 1 = [(''Tea'', 1), (''Coffee'', 1)]"
  by (simp add: vote_distribution_rows_def vote_distribution_groups_def group_vote_count_def
      tea_poll_db_def)

lemma tea_poll_distribution: "get_vote_distribution tea_poll_db 1 = [(''Tea'', 1), (''Coffee'', 1)]"
  by (simp add: get_vote_distribution_def tea_poll_rows dict_of_rows_def)

lemma tea_poll_count: "count_poll_votes tea_poll_db 1 = 2"
  by (simp add: count_poll_votes_def poll_vote_rows_def tea_poll_db_def)

lemma tea_poll_score: "calculate_poll_performance_score tea_poll_db 1800000000 1 = 100"
  by (simp add: calculate_poll_performance_score_def tea_poll_first tea_poll_count
      view_count_of_def py_round2_def round_half_even_def)
    (simp add: tea_poll_db_def)

lemma tea_poll_analytics:
  "get_poll_analytics tea_poll_db 1800000000 1 =
     Inr \<lparr>pa_poll_id = 1, pa_poll_question = ''Tea or coffee?'', pa_total_votes = 2,
          pa_engagement_rate = 200, pa_vote_distribution = [(''Tea'', 1), (''Coffee'', 1)],
          pa_performance_score = 100, pa_created_at = 0,
          pa_peak_voting_time = Some 1200000000, pa_total_views = 1, pa_unique_voters = 2,
          pa_vote_velocity = 4\<rparr>"
  by (simp add: get_poll_analytics_def tea_poll_first tea_poll_distribution tea_poll_score
      get_peak_voting_time_def view_count_of_def total_seconds_def)
    (simp add: tea_poll_db_def poll_vote_rows_def)

lemma same_text_first: "first_poll same_text_db 1 = Some (hd (db_polls same_text_db))"
  by (simp add: first_poll_def same_text_db_def)

lemma same_text_rows:
  "vote_distribution_rows same_text_db 1 = [(''Yes'', 2), (''Yes'', 1), (''No'', 0)]"
  by (simp add: vote_distribution_rows_def vote_distribution_groups_def group_vote_count_def
      same_text_db_def)

lemma same_text_distribution: "get_vote_distribution same_text_db 1 = [(''Yes'', 1), (''No'', 0)]"
  by (simp add: get_vote_distribution_def same_text_rows dict_of_rows_def)

lemma same_text_count: "count_poll_votes same_text_db 1 = 3"
  by (simp add: count_poll_votes_def poll_vote_rows_def same_text_db_def)

lemma same_text_score: "calculate_poll_performance_score same_text_db 100 1 = 65"
  by (simp add: calculate_poll_performance_score_def same_text_first same_text_count
      view_count_of_def timedelta_days_def)
    (simp add: same_text_db_def py_round2_def round_half_even_def)

lemma same_text_analytics:
  "get_poll_analytics same_text_db 100 1 =
     Inr \<lparr>pa_poll_id = 1, pa_poll_question = ''Agree?'', pa_total_votes = 1,
          pa_engagement_rate = 10, pa_vote_distribution = [(''Yes'', 1), (''No'', 0)],
          pa_performance_score = 65, pa_created_at = 0, pa_peak_voting_time = Some 30,
          pa_total_views = 10, pa_unique_voters = 3, pa_vote_velocity = 36000000\<rparr>"
  by (simp add: get_poll_analytics_def same_text_first same_text_distribution same_text_score
      get_peak_voting_time_def view_count_of_def total_seconds_def)
    (simp add: same_text_db_def poll_vote_rows_def)



section \<open>Poll detail: engagement rate, performance score, vote velocity\<close>

lemma performance_score_range:
  "0 \<le> calculate_poll_performance_score db now poll_id
   \<and> calculate_poll_performance_score db now poll_id \<le> 100"
proof (cases "first_poll db poll_id")
  case None
  then show ?thesis by (simp add: calculate_poll_performance_score_def)
next
  case (Some p)
  define vc where "vc = count_poll_votes db poll_id"
  define er :: real
    where "er = (if 0 < view_count_of p then of_int vc / of_int (view_count_of p) else 0)"
  define rf :: real
    where "rf = max 0 (1 - of_int (timedelta_days (now - p_created_at p)) / 30)"
  have vc: "0 \<le> vc" by (simp add: vc_def count_poll_votes_def)
  then have er: "0 \<le> er" by (simp add: er_def)
  have rf: "0 \<le> rf" by (simp add: rf_def)
  have "0 \<le> of_int vc * 10 + er * 50 + rf * 20"
    using vc er rf by simp
  then have "0 \<le> py_round2 (min 100 (of_int vc * 10 + er * 50 + rf * 20))
     \<and> py_round2 (min 100 (of_int vc * 10 + er * 50 + rf * 20)) \<le> 100"
    by (intro py_round2_range) simp_all
  moreover have "calculate_poll_performance_score db now poll_id
      = py_round2 (min 100 (of_int vc * 10 + er * 50 + rf * 20))"
    unfolding calculate_poll_performance_score_def Some Let_def vc_def er_def rf_def option.case ..
  ultimately show ?thesis by simp
qed

text \<open>
  C1, as amended. Whenever \<open>get_poll_analytics\<close> returns a result, its performance score
  lies between 0 and 100 and its engagement rate is at least 0. The engagement rate is not
  capped: it is at most 100 exactly when the poll has no positive view count or its total of
  votes does not exceed its views.
\<close>

theorem poll_analytics_ranges:
  assumes "get_poll_analytics db now poll_id = Inr pa"
  shows "0 \<le> pa_performance_score pa \<and> pa_performance_score pa \<le> 100
       \<and> 0 \<le> pa_engagement_rate pa
       \<and> ((pa_engagement_rate pa \<le> 100) =
            (pa_total_views pa \<le> 0 \<or> pa_total_votes pa \<le> pa_total_views pa))"
proof -
  from assms obtain p where p: "first_poll db poll_id = Some p"
    by (auto simp: get_poll_analytics_def split: option.splits)
  define tv where "tv = sum_list (map snd (get_vote_distribution db poll_id))"
  have tv: "0 \<le> tv" unfolding tv_def by (rule total_votes_nonneg)
  have ps: "pa_performance_score pa = calculate_poll_performance_score db now poll_id"
    and er: "pa_engagement_rate pa =
               (if 0 < view_count_of p then of_int tv / of_int (view_count_of p) * 100 else 0)"
    and vw: "pa_total_views pa = view_count_of p"
    and tt: "pa_total_votes pa = tv"
    using assms by (auto simp: get_poll_analytics_def p Let_def tv_def)
  have "0 \<le> pa_engagement_rate pa" using tv by (simp add: er)
  moreover have "(pa_engagement_rate pa \<le> 100) =
            (pa_total_views pa \<le> 0 \<or> pa_total_votes pa \<le> pa_total_views pa)"
    by (auto simp: er vw tt field_simps)
  ultimately show ?thesis
    using performance_score_range [of db now poll_id] by (simp add: ps)
qed

theorem poll_analytics_ranges_witness:
  "get_poll_analytics same_text_db 100 1 =
     Inr \<lparr>pa_poll_id = 1, pa_poll_question = ''Agree?'', pa_total_votes = 1,
          pa_engagement_rate = 10, pa_vote_distribution = [(''Yes'', 1), (''No'', 0)],
          pa_performance_score = 65, pa_created_at = 0, pa_peak_voting_time = Some 30,
          pa_total_views = 10, pa_unique_voters = 3, pa_vote_velocity = 36000000\<rparr>
   \<and> (0::real) \<le> 65 \<and> (65::real) \<le> 100 \<and> (0::real) \<le> 10
   \<and> (((10::real) \<le> 100) = ((10::int) \<le> 0 \<or> (1::int) \<le> 10))"
  using poll_analytics_ranges [OF same_text_analytics] same_text_analytics by simp

text \<open>
  C1 as stated fails: the poll of \<open>tea_poll_db\<close> has one view and two votes, and its
  engagement rate is 200.
\<close>

theorem engagement_rate_above_100:
  "map_sum id pa_engagement_rate (get_poll_analytics tea_poll_db 1800000000 1) = Inr 200
   \<and> \<not> (200::real) \<le> 100"
  by (simp add: tea_poll_analytics)

text \<open>
  C3, as amended. For every poll of positive age, also one that is less than an hour old,
  the vote velocity is the total of votes divided by the hours since creation. It is the
  fallback 0 only under the guard of the code: when the poll's age is zero or negative.
\<close>

theorem vote_velocity_rule:
  assumes "get_poll_analytics db now poll_id = Inr pa"
    and "first_poll db poll_id = Some p"
  shows "pa_vote_velocity pa =
           (if p_created_at p < now
            then of_int (pa_total_votes pa) / (total_seconds (now - p_created_at p) / 3600)
            else 0)"
proof -
  have "(0 < total_seconds (now - p_created_at p) / 3600) = (p_created_at p < now)"
    by (simp add: total_seconds_def)
  then show ?thesis
    using assms by (auto simp: get_poll_analytics_def Let_def)
qed

theorem vote_velocity_rule_witness:
  "first_poll same_text_db 1 = Some (hd (db_polls same_text_db))
   \<and> p_created_at (hd (db_polls same_text_db)) < 100
   \<and> map_sum id pa_vote_velocity (get_poll_analytics same_text_db 100 1)
       = Inr (1 / (total_seconds 100 / 3600))"
proof -
  have c: "p_created_at (hd (db_polls same_text_db)) = 0"
    by (simp add: same_text_db_def)
  have "(36000000::real) = 1 / (total_seconds 100 / 3600)"
    using vote_velocity_rule [OF same_text_analytics same_text_first] by (simp add: c)
  then show ?thesis
    by (simp add: same_text_analytics same_text_first c)
qed

text \<open>
  C3 as stated fails: at the age of thirty minutes, half an hour, the poll of
  \<open>tea_poll_db\<close> with its two votes has the vote velocity 4, not 0.
\<close>

theorem vote_velocity_young_poll:
  "total_seconds (1800000000 - 0) / 3600 < 1
   \<and> map_sum id pa_vote_velocity (get_poll_analytics tea_poll_db 1800000000 1) = Inr 4
   \<and> (4::real) \<noteq> 0"
  by (simp add: tea_poll_analytics total_seconds_def)


section \<open>Engagement score and complexity factor\<close>

text \<open>
  C2, as amended. With a non-negative number of votes, \<open>calculate_engagement_score\<close> is 0
  when there are no views, whatever the other inputs; otherwise it is the formula of the
  specification.
\<close>

theorem engagement_score_formula:
  assumes "0 \<le> votes"
  shows "calculate_engagement_score votes views unique_voters poll_age_hours option_count
     = (if views = 0 then 0
        else engagement_score_spec votes views unique_voters poll_age_hours option_count)"
proof -
  have sw: "min 100 (max 0 x) = max 0 (min 100 x)" for x :: real
    by (simp add: min_def max_def)
  from assms have "(0 < votes) = (votes \<noteq> 0)" by auto
  then show ?thesis
    by (simp add: calculate_engagement_score_def engagement_score_spec_def
        complexity_factor_def clamp_def Let_def sw)
qed

theorem engagement_score_formula_witness:
  "(0::int) \<le> 1 \<and> calculate_engagement_score 1 2 1 24 3 = 759 / 10
   \<and> calculate_engagement_score 1 0 1 24 3 = 0"
  using engagement_score_formula [of 1 2 1 24 3] engagement_score_formula [of 1 0 1 24 3]
  by (simp add: engagement_score_spec_def clamp_def)

text \<open>
  C2 as stated fails: without views, votes and age, and with two options, the formula of the
  specification gives the recency bonus 10, the code 0.
\<close>

theorem engagement_score_zero_views:
  "calculate_engagement_score 0 0 0 0 2 = 0 \<and> engagement_score_spec 0 0 0 0 2 = 10
   \<and> calculate_engagement_score 0 0 0 0 2 \<noteq> engagement_score_spec 0 0 0 0 2"
  by (simp add: calculate_engagement_score_def engagement_score_spec_def clamp_def)

text \<open>
  C4, as amended. The complexity factor is at most 1.2 for every option count, and it is at
  least 1.0 exactly for the option counts from 2 on.
\<close>

theorem complexity_factor_range:
  "complexity_factor option_count \<le> 12 / 10
   \<and> ((1 \<le> complexity_factor option_count) = (2 \<le> option_count))"
  by (auto simp: complexity_factor_def min_def)

theorem complexity_factor_range_witness:
  "complexity_factor 3 \<le> 12 / 10 \<and> 1 \<le> complexity_factor 3"
  using complexity_factor_range [of 3] by simp

text \<open>C4 as stated fails: for a poll without options the complexity factor is 0.8.\<close>

theorem complexity_factor_below_one:
  "(0::int) \<le> 0 \<and> complexity_factor 0 = 8 / 10 \<and> \<not> 1 \<le> complexity_factor 0"
  by (simp add: complexity_factor_def)

lemma complexity_factor_few_options:
  "complexity_factor 0 = 8 / 10 \<and> complexity_factor 1 = 9 / 10"
  by (simp add: complexity_factor_def)


section \<open>Trend direction\<close>

lemma first_window_slice:
  "1 \<le> w \<Longrightarrow>
   fdiv A (fsum A (slice_to values w)) (fint A w) = first_window_mean A values w"
  by (simp add: slice_to_take first_window_mean_def)

lemma last_window_slice:
  "1 \<le> w \<Longrightarrow> 2 * w \<le> int (length values) \<Longrightarrow>
   fdiv A (fsum A (slice_from values (- w))) (fint A w) = last_window_mean A values w"
  by (simp add: slice_from_last last_window_mean_def)



lemma trend_direction_ratio:
  assumes "1 \<le> w" "2 * w \<le> int (length values)"
    and "fless A (fint A 0) (first_window_mean A values w)"
  shows "calculate_trend_direction A values w
     = Inr (classify_change A (first_window_mean A values w) (last_window_mean A values w))"
proof -
  have c: "\<not> int (length values) < w * 2" "w \<noteq> 0"
    using assms(1,2) by auto
  show ?thesis
    unfolding calculate_trend_direction_def Let_def classify_change_def
      first_window_slice [OF assms(1)] last_window_slice [OF assms(1,2)]
    using c assms(3) by simp
qed

text \<open>
  In exact arithmetic, and only there, the classification by the relative change is the
  rule of the voting trends whenever the first mean is positive. With the rounding of the
  floats the two can part on the boundary of ten percent: for the series 3, 3, 4, 3, 3, 3
  and the window size 3 the quotient is rounded to a value just below -0.1, although the
  last mean 3 is not below 0.9 times the first.
\<close>

lemma ratio_above: "0 < (f::real) \<Longrightarrow> (1 / 10 < (l - f) / f) = (f * (11 / 10) < l)"
  by (simp add: field_simps)

lemma ratio_below: "0 < (f::real) \<Longrightarrow> ((l - f) / f < - (1 / 10)) = (l < f * (9 / 10))"
  by (simp add: field_simps)

lemma classify_change_exact:
  assumes "0 < f"
  shows "classify_change exact_arith f l = trend_rule_spec exact_arith f l"
  unfolding classify_change_def trend_rule_spec_def Let_def exact_arith_def
  by (simp only: arith.simps ratio_above [OF assms] ratio_below [OF assms])

lemma trend_direction_exact_rule:
  assumes "1 \<le> w" "2 * w \<le> int (length values)"
    and "0 < first_window_mean exact_arith values w"
  shows "calculate_trend_direction exact_arith values w
     = Inr (trend_rule_spec exact_arith (first_window_mean exact_arith values w)
              (last_window_mean exact_arith values w))"
proof -
  have "fless exact_arith (fint exact_arith 0) (first_window_mean exact_arith values w)"
    using assms(3) by (simp add: exact_arith_def)
  then show ?thesis
    using assms by (simp add: trend_direction_ratio classify_change_exact)
qed

text \<open>
  In every arithmetic, the rule \<open>trend_rule_spec\<close> is the rule of
  \<open>_calculate_engagement_trend\<close>, applied to the means of the two halves of the daily
  series.
\<close>

lemma engagement_trend_rule:
  assumes "2 \<le> length daily_votes"
  shows "calculate_engagement_trend A daily_votes
     = trend_rule_spec A
         (fdiv A (fint A (sum_list (map dv_vote_count
                                      (take (length daily_votes div 2) daily_votes))))
            (fint A (int (length daily_votes div 2))))
         (fdiv A (fint A (sum_list (map dv_vote_count
                                      (drop (length daily_votes div 2) daily_votes))))
            (fint A (int (length daily_votes - length daily_votes div 2))))"
proof -
  define h where "h = length daily_votes div 2"
  have h: "int (length daily_votes) div 2 = int h" by (simp add: h_def zdiv_int)
  have le: "h \<le> length daily_votes" by (simp add: h_def)
  have a: "slice_to daily_votes (int h) = take h daily_votes"
    by (simp add: slice_to_take)
  have b: "slice_from daily_votes (int h) = drop h daily_votes"
    using le by (simp add: slice_from_def py_slice_def clip_index_def Let_def)
  have d: "int (length daily_votes) - int h = int (length daily_votes - h)"
    using le by simp
  show ?thesis
    using assms
    unfolding calculate_engagement_trend_def Let_def h a b d trend_rule_spec_def h_def [symmetric]
    by simp
qed





section \<open>Percentile rank, moving average, anomalies\<close>

text \<open>
  C7. If the dataset is not empty and every element of it equals the value, the percentile
  rank of the value is 50.
\<close>

theorem percentile_rank_all_equal:
  assumes "dataset \<noteq> []" "\<forall>x \<in> set dataset. x = v"
  shows "calculate_percentile_rank v dataset = 50"
proof -
  have below: "filter (\<lambda>x. x < v) (sort dataset) = []"
    using assms(2) by (auto simp: filter_empty_conv)
  have equal: "filter (\<lambda>x. x = v) (sort dataset) = sort dataset"
    using assms(2) by (auto simp: filter_id_conv)
  have "length dataset \<noteq> 0" using assms(1) by simp
  then show ?thesis
    using assms(1) by (simp add: calculate_percentile_rank_def below equal Let_def py_round2_50)
qed

theorem percentile_rank_all_equal_witness:
  "[3, 3, 3 :: real] \<noteq> [] \<and> list_all (\<lambda>x. x = 3) [3, 3, 3 :: real]
   \<and> calculate_percentile_rank 3 [3, 3, 3] = 50"
  using percentile_rank_all_equal [of "[3, 3, 3]" 3] by simp

text \<open>
  C8. A series with fewer elements than the window size is returned unchanged by
  \<open>calculate_moving_average\<close>.
\<close>

theorem moving_average_short_series:
  "int (length values) < window_size \<Longrightarrow> calculate_moving_average values window_size = Inr values"
  by (simp add: calculate_moving_average_def)

theorem moving_average_short_series_witness:
  "int (length [1, 2 :: real]) < 3 \<and> calculate_moving_average [1, 2] 3 = Inr [1, 2]"
  using moving_average_short_series [of "[1, 2]" 3] by simp

lemma detect_anomalies_eval:
  assumes "3 \<le> length values"
    and "sum_list values / of_nat (length values) = m"
    and "sum_list (map (\<lambda>x. (x - m)\<^sup>2) values) / of_nat (length values) = s\<^sup>2"
    and "0 \<le> s"
  shows "detect_anomalies values t
           = filter (\<lambda>(i, v). t * s < \<bar>v - m\<bar>) (enumerate 0 values)"
proof -
  have "sqrt (s\<^sup>2) = s" using assms(4) by simp
  with assms(1-3) show ?thesis
    by (simp add: detect_anomalies_def Let_def)
qed

lemma detect_anomalies_scenario:
  "detect_anomalies [1, 1, 1, 1, 100] t
     = filter (\<lambda>(i, v). t * (198 / 5) < \<bar>v - 104 / 5\<bar>)
         [(0, 1), (1, 1), (2, 1), (3, 1), (4, 100)]"
proof -
  have en: "enumerate 0 [1, 1, 1, 1, 100 :: real] = [(0, 1), (1, 1), (2, 1), (3, 1), (4, 100)]"
    by (simp add: enumerate_eq_zip upt_rec numeral_eq_Suc)
  have "detect_anomalies [1, 1, 1, 1, 100] t
          = filter (\<lambda>(i, v). t * (198 / 5) < \<bar>v - 104 / 5\<bar>) (enumerate 0 [1, 1, 1, 1, 100])"
    by (rule detect_anomalies_eval) (simp_all add: power2_eq_square)
  then show ?thesis by (simp only: en)
qed

text \<open>
  C5, as amended. In exact arithmetic the series 1, 1, 1, 1, 100 has mean 20.8 and
  population standard deviation 39.6, so the deviation 79.2 of the value 100 equals
  2.0 standard deviations and the strict comparison flags nothing at the threshold 2.0;
  the point at index 4 is the one flagged point for every threshold from 0.5 up to, but
  excluding, 2.0. A series of fewer than 3 values has no flagged point.
\<close>

theorem detect_anomalies_boundary:
  "detect_anomalies [1, 1, 1, 1, 100] 2 = []
   \<and> (1 / 2 \<le> t \<and> t < 2 \<longrightarrow> detect_anomalies [1, 1, 1, 1, 100] t = [(4, 100)])
   \<and> (length values < 3 \<longrightarrow> detect_anomalies values u = [])"
proof -
  have "detect_anomalies [1, 1, 1, 1, 100] 2 = []"
    by (simp add: detect_anomalies_scenario)
  moreover have "detect_anomalies [1, 1, 1, 1, 100] t = [(4, 100)]" if "1 / 2 \<le> t" "t < 2"
    using that by (simp add: detect_anomalies_scenario)
  moreover have "detect_anomalies values u = []" if "length values < 3"
    using that by (simp add: detect_anomalies_def)
  ultimately show ?thesis by blast
qed

theorem detect_anomalies_boundary_witness:
  "(1 / 2 \<le> (1::real) \<and> (1::real) < 2) \<and> detect_anomalies [1, 1, 1, 1, 100] 1 = [(4, 100)]
   \<and> length [1, 2 :: real] < 3 \<and> detect_anomalies [1, 2] 2 = []"
  using detect_anomalies_boundary [of 1 "[1, 2]" 2] by simp

text \<open>
  C5 as stated fails: at the threshold 2.0 the result for the series 1, 1, 1, 1, 100 is not
  the single point at index 4.
\<close>

theorem detect_anomalies_scenario_flags_nothing:
  "detect_anomalies [1, 1, 1, 1, 100] 2 \<noteq> [(4, 100)]"
  by (simp add: detect_anomalies_scenario)


section \<open>Most popular poll\<close>



lemma most_popular_fold_chosen:
  assumes "fold (\<lambda>p (max_votes, most_popular).
                   let vote_count = count_poll_votes db (p_id p)
                   in if max_votes < vote_count then (vote_count, Some p)
                      else (max_votes, most_popular))
             ps (mx, mp) = (mx', Some q)"
    and "0 \<le> mx"
    and "\<forall>r. mp = Some r \<longrightarrow> r \<in> S \<and> 0 < count_poll_votes db (p_id r)"
    and "set ps \<subseteq> S"
  shows "q \<in> S \<and> 0 < count_poll_votes db (p_id q)"
  using assms
proof (induction ps arbitrary: mx mp)
  case Nil
  then show ?case by simp
next
  case (Cons p ps)
  define c where "c = count_poll_votes db (p_id p)"
  show ?case
  proof (cases "mx < c")
    case True
    have "fold (\<lambda>p (max_votes, most_popular).
                   let vote_count = count_poll_votes db (p_id p)
                   in if max_votes < vote_count then (vote_count, Some p)
                      else (max_votes, most_popular))
             ps (c, Some p) = (mx', Some q)"
      using Cons.prems(1) True by (simp add: c_def)
    moreover have "0 \<le> c" using True Cons.prems(2) by simp
    moreover have "\<forall>r. Some p = Some r \<longrightarrow> r \<in> S \<and> 0 < count_poll_votes db (p_id r)"
      using True Cons.prems(2,4) by (simp add: c_def)
    moreover have "set ps \<subseteq> S" using Cons.prems(4) by simp
    ultimately show ?thesis by (rule Cons.IH)
  next
    case False
    have "fold (\<lambda>p (max_votes, most_popular).
                   let vote_count = count_poll_votes db (p_id p)
                   in if max_votes < vote_count then (vote_count, Some p)
                      else (max_votes, most_popular))
             ps (mx, mp) = (mx', Some q)"
      using Cons.prems(1) False by (simp add: c_def)
    moreover have "set ps \<subseteq> S" using Cons.prems(4) by simp
    ultimately show ?thesis using Cons.prems(2,3) by (intro Cons.IH [of mx mp])
  qed
qed

text \<open>Only a poll with a strictly positive vote count is ever chosen.\<close>

lemma most_popular_has_votes:
  assumes "get_most_popular_poll db ps = Some s"
  shows "\<exists>p \<in> set ps. 0 < count_poll_votes db (p_id p)
           \<and> s = \<lparr>ps_id = p_id p, ps_question = p_question p, ps_created_at = p_created_at p\<rparr>"
proof -
  obtain mx' mp' where f:
    "fold (\<lambda>p (max_votes, most_popular).
             let vote_count = count_poll_votes db (p_id p)
             in if max_votes < vote_count then (vote_count, Some p)
                else (max_votes, most_popular))
       ps (0, None) = (mx', mp')"
    by (cases "fold (\<lambda>p (max_votes, most_popular).
             let vote_count = count_poll_votes db (p_id p)
             in if max_votes < vote_count then (vote_count, Some p)
                else (max_votes, most_popular))
       ps (0 :: int, None :: poll option)") blast
  from assms f obtain q where q: "mp' = Some q"
    and s: "s = \<lparr>ps_id = p_id q, ps_question = p_question q, ps_created_at = p_created_at q\<rparr>"
    by (auto simp: get_most_popular_poll_def split: if_splits option.splits)
  have "q \<in> set ps \<and> 0 < count_poll_votes db (p_id q)"
    using f unfolding q by (rule most_popular_fold_chosen) simp_all
  with s show ?thesis by blast
qed




section \<open>Options with the same text\<close>

lemma single_entry:
  "distinct (map fst xs) \<Longrightarrow> map_of xs t = Some c \<Longrightarrow> filter (\<lambda>e. fst e = t) xs = [(t, c)]"
proof (induction xs)
  case Nil
  then show ?case by simp
next
  case (Cons x xs)
  show ?case
  proof (cases "fst x = t")
    case True
    with Cons.prems have "x = (t, c)" by (cases x) simp
    moreover have "filter (\<lambda>e. fst e = t) xs = []"
    proof -
      from True Cons.prems(1) have "t \<notin> fst ` set xs" by simp
      then have "\<forall>e \<in> set xs. fst e \<noteq> t" by blast
      then show ?thesis by (simp add: filter_empty_conv)
    qed
    ultimately show ?thesis by simp
  next
    case False
    with Cons show ?thesis by (cases x) auto
  qed
qed

lemma length_filter_sum: "sum_list (map (\<lambda>y. if Q y then 1 else 0) ys) = length (filter Q ys)"
  by (induction ys) simp_all

lemma comprehension_length:
  "length [(x, y). x \<leftarrow> xs, y \<leftarrow> ys, C x y]
     = sum_list (map (\<lambda>x. length (filter (C x) ys)) xs)"
proof -
  have inner: "length (concat (map (\<lambda>y. if C x y then [(x, y)] else []) ys))
                 = length (filter (C x) ys)" for x
    by (induction ys) simp_all
  show ?thesis
    by (induction xs) (simp_all add: inner)
qed

lemma pairs_swap:
  "sum_list (map (\<lambda>x. length (filter (R x) ys)) (filter P xs))
     = sum_list (map (\<lambda>y. length (filter (\<lambda>x. R x y \<and> P x) xs)) ys)"
proof (induction xs)
  case Nil
  then show ?case by simp
next
  case (Cons x xs)
  have "sum_list (map (\<lambda>y. length (filter (\<lambda>x. R x y \<and> P x) (x # xs))) ys)
      = sum_list (map (\<lambda>y. (if R x y \<and> P x then 1 else 0)
                              + length (filter (\<lambda>x. R x y \<and> P x) xs)) ys)"
    by (rule arg_cong [where f = sum_list]) simp
  also have "\<dots> = sum_list (map (\<lambda>y. if R x y \<and> P x then 1 else 0) ys)
                    + sum_list (map (\<lambda>y. length (filter (\<lambda>x. R x y \<and> P x) xs)) ys)"
    by (simp add: sum_list_addf)
  also have "sum_list (map (\<lambda>y. if R x y \<and> P x then 1 else 0) ys)
               = (if P x then length (filter (R x) ys) else 0)"
    by (simp add: length_filter_sum)
  finally show ?case using Cons by simp
qed

lemma sum_list_single:
  "distinct xs \<Longrightarrow> x0 \<in> set xs \<Longrightarrow>
   sum_list (map (\<lambda>x. if x = x0 then n else 0) xs) = (n::nat)"
proof (induction xs)
  case Nil
  then show ?case by simp
next
  case (Cons x xs)
  have zero: "sum_list (map (\<lambda>x. if x = x0 then n else 0) xs) = 0" if "x0 \<notin> set xs"
    using that by (induction xs) auto
  show ?case
  proof (cases "x = x0")
    case True
    with Cons.prems have "x0 \<notin> set xs" by simp
    with True show ?thesis by (simp add: zero)
  next
    case False
    with Cons show ?thesis by simp
  qed
qed

text \<open>
  Where the ids of the options are unique, the count of the group of an option of the poll
  is the number of votes for that option.
\<close>

lemma group_vote_count_option:
  assumes "distinct (map o_id (db_options db))"
    and "opt0 \<in> set (db_options db)" "o_poll_id opt0 = poll_id"
  shows "group_vote_count db poll_id (o_id opt0, o_text opt0) = option_vote_count db (o_id opt0)"
proof -
  define opts where "opts = filter (\<lambda>opt. o_poll_id opt = poll_id) (db_options db)"
  define n where "n = length (filter (\<lambda>v. v_option_id v = o_id opt0) (db_votes db))"
  have d: "distinct (map o_id opts)"
    unfolding opts_def using assms(1) by (rule distinct_map_filter)
  then have dist: "distinct opts" and inj: "inj_on o_id (set opts)"
    by (simp_all add: distinct_map)
  have mem: "opt0 \<in> set opts" using assms(2,3) by (simp add: opts_def)
  have each: "length (filter (\<lambda>v. (o_id opt, o_text opt) = (o_id opt0, o_text opt0)
                                  \<and> v_option_id v = o_id opt) (db_votes db))
                = (if opt = opt0 then n else 0)" if "opt \<in> set opts" for opt
  proof (cases "opt = opt0")
    case True
    then show ?thesis by (simp add: n_def)
  next
    case False
    with that mem inj have "o_id opt \<noteq> o_id opt0" by (auto dest: inj_onD)
    with False show ?thesis by simp
  qed
  have "length [(opt, v). opt \<leftarrow> opts, v \<leftarrow> db_votes db,
                  (o_id opt, o_text opt) = (o_id opt0, o_text opt0) \<and> v_option_id v = o_id opt]
          = sum_list (map (\<lambda>opt. length (filter (\<lambda>v. (o_id opt, o_text opt)
                                 = (o_id opt0, o_text opt0) \<and> v_option_id v = o_id opt)
                               (db_votes db))) opts)"
    by (rule comprehension_length)
  also have "\<dots> = sum_list (map (\<lambda>opt. if opt = opt0 then n else 0) opts)"
    by (rule arg_cong [where f = sum_list], rule map_cong [OF refl]) (rule each)
  also have "\<dots> = n" using dist mem by (rule sum_list_single)
  finally show ?thesis
    by (simp add: group_vote_count_def option_vote_count_def opts_def n_def)
qed

text \<open>
  Where the ids of the options are unique and the engine returns every group once, the
  counts of the rows add up to the number of votes of the poll.
\<close>

lemma rows_total:
  assumes "distinct (map o_id (db_options db))"
    and "set (db_group_order db (vote_distribution_groups db poll_id))
           = set (vote_distribution_groups db poll_id)"
    and "distinct (db_group_order db (vote_distribution_groups db poll_id))"
  shows "sum_list (map snd (vote_distribution_rows db poll_id)) = count_poll_votes db poll_id"
proof -
  define opts where "opts = filter (\<lambda>opt. o_poll_id opt = poll_id) (db_options db)"
  define groups where "groups = vote_distribution_groups db poll_id"
  have "distinct (map o_id opts)"
    unfolding opts_def using assms(1) by (rule distinct_map_filter)
  then have "distinct (map (\<lambda>opt. (o_id opt, o_text opt)) opts)"
    by (auto simp: distinct_map inj_on_def)
  then have groups: "groups = map (\<lambda>opt. (o_id opt, o_text opt)) opts"
    by (simp add: groups_def vote_distribution_groups_def opts_def [symmetric] distinct_remdups_id)
  have dg: "distinct groups" by (simp add: groups_def vote_distribution_groups_def)
  have "sum_list (map snd (vote_distribution_rows db poll_id))
      = sum_list (map (group_vote_count db poll_id) (db_group_order db groups))"
    by (simp add: vote_distribution_rows_def groups_def o_def)
  also have "\<dots> = sum (group_vote_count db poll_id) (set (db_group_order db groups))"
    using assms(3) by (simp add: sum_list_distinct_conv_sum_set groups_def)
  also have "\<dots> = sum (group_vote_count db poll_id) (set groups)"
    using assms(2) by (simp add: groups_def)
  also have "\<dots> = sum_list (map (group_vote_count db poll_id) groups)"
    using dg by (simp add: sum_list_distinct_conv_sum_set)
  also have "\<dots> = sum_list (map (\<lambda>opt. group_vote_count db poll_id (o_id opt, o_text opt)) opts)"
    by (simp add: groups o_def)
  also have "\<dots> = sum_list (map (\<lambda>opt. option_vote_count db (o_id opt)) opts)"
  proof (rule arg_cong [where f = sum_list], rule map_cong [OF refl])
    fix opt assume "opt \<in> set opts"
    then have "opt \<in> set (db_options db)" "o_poll_id opt = poll_id"
      by (simp_all add: opts_def)
    with assms(1) show "group_vote_count db poll_id (o_id opt, o_text opt)
                          = option_vote_count db (o_id opt)"
      by (rule group_vote_count_option)
  qed
  also have "\<dots> = int (sum_list (map (\<lambda>opt. length (filter (\<lambda>v. v_option_id v = o_id opt)
                                                   (db_votes db))) opts))"
    by (simp add: option_vote_count_def o_def sum_list_of_nat [symmetric])
  also have "sum_list (map (\<lambda>opt. length (filter (\<lambda>v. v_option_id v = o_id opt)
                                     (db_votes db))) opts)
             = sum_list (map (\<lambda>v. length (filter (\<lambda>opt. v_option_id v = o_id opt
                                           \<and> o_poll_id opt = poll_id) (db_options db)))
                           (db_votes db))"
    unfolding opts_def by (rule pairs_swap)
  also have "\<dots> = length (poll_vote_rows db poll_id)"
    unfolding poll_vote_rows_def comprehension_length
    by (rule arg_cong [where f = sum_list], rule map_cong [OF refl])
      (rule arg_cong [where f = length], rule filter_cong [OF refl], auto)
  finally show ?thesis by (simp add: count_poll_votes_def)
qed

lemma member_le_sum_int:
  "\<forall>x \<in> set xs. 0 \<le> x \<Longrightarrow> y \<in> set xs \<Longrightarrow> y \<le> sum_list (xs :: int list)"
proof (induction xs)
  case Nil
  then show ?case by simp
next
  case (Cons x xs)
  have "0 \<le> sum_list xs" using Cons.prems(1) by (intro sum_list_nonneg) simp
  with Cons show ?case by auto
qed

lemma overwritten_subset: "set (overwritten_rows rows) \<subseteq> set rows"
  by (induction rows) auto

lemma overwritten_member:
  "fst r \<in> fst ` set ys \<Longrightarrow> r \<in> set (overwritten_rows (xs @ r # ys))"
  by (induction xs) auto
text \<open>
  C10. Let the ids of the options be unique, let the engine return every group of the
  grouped query once, in whatever order, and let \<open>get_poll_analytics\<close> return a result for
  a poll that has two options \<open>o1\<close> and \<open>o2\<close> with the same text. Then the vote distribution
  has a single entry for that text. The entry carries the vote count of one option alone:
  the option of the poll with that text whose row the engine returns last. The total of
  votes is the sum of the values of the distribution; it is the number of votes of the poll
  less the counts of the overwritten rows, so that for each of \<open>o1\<close> and \<open>o2\<close> that is not the
  last option with the text, the total and the votes of that option together do not exceed
  the number of votes of the poll.
\<close>

theorem vote_distribution_same_text:
  assumes pk: "distinct (map o_id (db_options db))"
    and every: "set (db_group_order db (vote_distribution_groups db poll_id))
                  = set (vote_distribution_groups db poll_id)"
    and once: "distinct (db_group_order db (vote_distribution_groups db poll_id))"
    and res: "get_poll_analytics db now poll_id = Inr pa"
    and o1: "o1 \<in> set (db_options db)" "o_poll_id o1 = poll_id"
    and o2: "o2 \<in> set (db_options db)" "o_poll_id o2 = poll_id"
    and ids: "o_id o1 \<noteq> o_id o2"
    and texts: "o_text o2 = o_text o1"
  shows "length (filter (\<lambda>e. fst e = o_text o1) (pa_vote_distribution pa)) = 1
       \<and> map_of (pa_vote_distribution pa) (o_text o1)
           = Some (option_vote_count db (last_option_with_text db poll_id (o_text o1)))
       \<and> (\<exists>opt \<in> set (db_options db). o_poll_id opt = poll_id \<and> o_text opt = o_text o1
             \<and> o_id opt = last_option_with_text db poll_id (o_text o1))
       \<and> pa_total_votes pa = sum_list (map snd (pa_vote_distribution pa))
       \<and> pa_total_votes pa
           = count_poll_votes db poll_id
             - sum_list (map snd (overwritten_rows (vote_distribution_rows db poll_id)))
       \<and> (o_id o1 \<noteq> last_option_with_text db poll_id (o_text o1) \<longrightarrow>
            pa_total_votes pa + option_vote_count db (o_id o1) \<le> count_poll_votes db poll_id)
       \<and> (o_id o2 \<noteq> last_option_with_text db poll_id (o_text o1) \<longrightarrow>
            pa_total_votes pa + option_vote_count db (o_id o2) \<le> count_poll_votes db poll_id)"
proof -
  define t where "t = o_text o1"
  define groups where "groups = vote_distribution_groups db poll_id"
  define delivered where "delivered = db_group_order db groups"
  define row_of where "row_of = (\<lambda>g :: int \<times> string. (snd g, group_vote_count db poll_id g))"
  define rows where "rows = vote_distribution_rows db poll_id"
  have rows: "rows = map row_of delivered"
    by (simp add: rows_def vote_distribution_rows_def row_of_def delivered_def groups_def)
  have fst_row: "fst (row_of g) = snd g" for g by (simp add: row_of_def)
  have set_delivered: "set delivered = set groups"
    using every by (simp add: delivered_def groups_def)
  have in_groups: "(o_id opt, o_text opt) \<in> set groups"
    if "opt \<in> set (db_options db)" "o_poll_id opt = poll_id" for opt
    using that by (auto simp: groups_def vote_distribution_groups_def)
  have of_option: "\<exists>opt \<in> set (db_options db). o_poll_id opt = poll_id \<and> g = (o_id opt, o_text opt)"
    if "g \<in> set groups" for g
    using that by (auto simp: groups_def vote_distribution_groups_def)
  have count_of: "group_vote_count db poll_id (o_id opt, o_text opt) = option_vote_count db (o_id opt)"
    if "opt \<in> set (db_options db)" "o_poll_id opt = poll_id" for opt
    using pk that by (rule group_vote_count_option)

  have "(o_id o1, t) \<in> set delivered"
    using in_groups [OF o1] set_delivered by (simp add: t_def)
  then have "\<exists>g \<in> set delivered. snd g = t"
    by (intro bexI [where x = "(o_id o1, t)"]) simp_all
  then obtain ys x zs where split: "delivered = ys @ x # zs" and x: "snd x = t"
    and zs: "\<forall>z \<in> set zs. snd z \<noteq> t"
    by (rule split_list_last_propE)
  have "filter (\<lambda>g. snd g = t) zs = []"
    using zs by (simp add: filter_empty_conv)
  then have "last (filter (\<lambda>g. snd g = t) delivered) = x"
    by (simp add: split x)
  then have winner: "last_option_with_text db poll_id t = fst x"
    by (simp add: last_option_with_text_def delivered_def groups_def)
  have "x \<in> set groups" using split set_delivered by auto
  then obtain w where w: "w \<in> set (db_options db)" "o_poll_id w = poll_id"
    and xw: "x = (o_id w, o_text w)"
    using of_option by blast
  have w_text: "o_text w = t" using x xw by simp
  have x_count: "group_vote_count db poll_id x = option_vote_count db (fst x)"
    using count_of [OF w] by (simp add: xw)

  from res obtain p where p: "first_poll db poll_id = Some p"
    by (auto simp: get_poll_analytics_def split: option.splits)
  have dist: "pa_vote_distribution pa = dict_of_rows rows"
    and total: "pa_total_votes pa = sum_list (map snd (pa_vote_distribution pa))"
    using res by (auto simp: get_poll_analytics_def p Let_def get_vote_distribution_def rows_def)

  have rows_split: "rows = map row_of ys @ row_of x # map row_of zs"
    by (simp add: rows split)
  have "t \<notin> fst ` set (map row_of zs)"
    using zs by (auto simp: fst_row)
  with rows_split have "map_of (dict_of_rows rows) t = Some (snd (row_of x))"
    by (intro last_row_wins [where xs = "map row_of ys" and ys = "map row_of zs"])
      (simp_all add: row_of_def x)
  then have entry: "map_of (pa_vote_distribution pa) t = Some (option_vote_count db (fst x))"
    by (simp add: dist row_of_def x_count)
  have "distinct (map fst (pa_vote_distribution pa))"
    unfolding dist by (rule distinct_dict_of_rows)
  then have "filter (\<lambda>e. fst e = t) (pa_vote_distribution pa) = [(t, option_vote_count db (fst x))]"
    using entry by (rule single_entry)
  then have single: "length (filter (\<lambda>e. fst e = t) (pa_vote_distribution pa)) = 1"
    by simp

  have "sum_list (map snd rows) = count_poll_votes db poll_id"
    unfolding rows_def using pk every once by (rule rows_total)
  then have less: "pa_total_votes pa
      = count_poll_votes db poll_id - sum_list (map snd (overwritten_rows rows))"
    unfolding total dist by (simp add: sum_dict_of_rows)

  have nonneg: "\<forall>c \<in> set (map snd (overwritten_rows rows)). 0 \<le> c"
  proof
    fix c assume "c \<in> set (map snd (overwritten_rows rows))"
    then obtain k where "(k, c) \<in> set (overwritten_rows rows)" by auto
    then have "(k, c) \<in> set (vote_distribution_rows db poll_id)"
      using overwritten_subset [of rows] by (auto simp: rows_def)
    then show "0 \<le> c" by (rule vote_distribution_rows_nonneg)
  qed
  have other: "pa_total_votes pa + option_vote_count db (o_id opt) \<le> count_poll_votes db poll_id"
    if opt: "opt \<in> set (db_options db)" "o_poll_id opt = poll_id"
      and "o_text opt = t" "o_id opt \<noteq> fst x" for opt
  proof -
    define g where "g = (o_id opt, t)"
    have "g \<in> set delivered"
      using in_groups [OF opt] set_delivered that(3) by (simp add: g_def)
    moreover have "g \<noteq> x" using that(4) by (auto simp: g_def)
    moreover have "g \<notin> set zs" using zs by (auto simp: g_def)
    ultimately have "g \<in> set ys" by (simp add: split)
    then obtain as bs where ys: "ys = as @ g # bs" by (auto simp: in_set_conv_decomp)
    have "rows = map row_of as @ row_of g # (map row_of bs @ row_of x # map row_of zs)"
      by (simp add: rows_split ys)
    moreover have "fst (row_of g) \<in> fst ` set (map row_of bs @ row_of x # map row_of zs)"
      by (simp add: fst_row x g_def)
    ultimately have "row_of g \<in> set (overwritten_rows rows)"
      by (simp only: overwritten_member)
    then have "snd (row_of g) \<in> set (map snd (overwritten_rows rows))"
      by (simp only: set_map image_eqI)
    then have "snd (row_of g) \<le> sum_list (map snd (overwritten_rows rows))"
      using nonneg by (intro member_le_sum_int)
    moreover have "snd (row_of g) = option_vote_count db (o_id opt)"
      using count_of [OF opt] that(3) by (simp add: row_of_def g_def)
    ultimately show ?thesis using less by simp
  qed
  have "\<exists>opt \<in> set (db_options db). o_poll_id opt = poll_id \<and> o_text opt = t
          \<and> o_id opt = last_option_with_text db poll_id t"
    using w w_text xw unfolding winner by auto
  moreover have "o_id o1 \<noteq> last_option_with_text db poll_id t \<longrightarrow>
      pa_total_votes pa + option_vote_count db (o_id o1) \<le> count_poll_votes db poll_id"
    using other [OF o1] unfolding winner by (simp add: t_def)
  moreover have "o_id o2 \<noteq> last_option_with_text db poll_id t \<longrightarrow>
      pa_total_votes pa + option_vote_count db (o_id o2) \<le> count_poll_votes db poll_id"
    using other [OF o2] texts unfolding winner by (simp add: t_def)
  ultimately show ?thesis
    using single entry total less unfolding winner [symmetric] t_def rows_def by blast
qed
lemma same_text_groups:
  "vote_distribution_groups same_text_db 1 = [(1, ''Yes''), (2, ''Yes''), (3, ''No'')]"
  by (simp add: vote_distribution_groups_def same_text_db_def)

lemma same_text_order: "db_group_order same_text_db gs = gs"
  by (simp add: same_text_db_def)

lemma same_text_option_votes:
  "option_vote_count same_text_db 1 = 2" "option_vote_count same_text_db 2 = 1"
  by (simp_all add: option_vote_count_def same_text_db_def)

theorem vote_distribution_same_text_witness:
  "distinct (map o_id (db_options same_text_db))
   \<and> distinct (db_group_order same_text_db (vote_distribution_groups same_text_db 1))
   \<and> last_option_with_text same_text_db 1 ''Yes'' = 2
   \<and> map_sum id pa_vote_distribution (get_poll_analytics same_text_db 100 1)
       = Inr [(''Yes'', option_vote_count same_text_db 2), (''No'', 0)]
   \<and> option_vote_count same_text_db 2 = 1
   \<and> option_vote_count same_text_db 1 = 2
   \<and> count_poll_votes same_text_db 1 = 3
   \<and> map_sum id pa_total_votes (get_poll_analytics same_text_db 100 1) = Inr 1
   \<and> (1::int) + option_vote_count same_text_db 1 \<le> count_poll_votes same_text_db 1"
proof -
  define o1 where "o1 = \<lparr>o_id = 1, o_text = ''Yes'', o_poll_id = 1\<rparr>"
  define o2 where "o2 = \<lparr>o_id = 2, o_text = ''Yes'', o_poll_id = 1\<rparr>"
  have pk: "distinct (map o_id (db_options same_text_db))"
    by (simp add: same_text_db_def)
  have every: "set (db_group_order same_text_db (vote_distribution_groups same_text_db 1))
                 = set (vote_distribution_groups same_text_db 1)"
    by (simp add: same_text_order)
  have once: "distinct (db_group_order same_text_db (vote_distribution_groups same_text_db 1))"
    by (simp add: same_text_order same_text_groups)
  have m1: "o1 \<in> set (db_options same_text_db)" "o_poll_id o1 = 1"
    and m2: "o2 \<in> set (db_options same_text_db)" "o_poll_id o2 = 1"
    and ids: "o_id o1 \<noteq> o_id o2" and texts: "o_text o2 = o_text o1"
    by (simp_all add: o1_def o2_def same_text_db_def)
  have winner: "last_option_with_text same_text_db 1 ''Yes'' = 2"
    by (simp add: last_option_with_text_def same_text_order same_text_groups)
  have t: "o_text o1 = ''Yes''" and i: "o_id o1 = 1"
    by (simp_all add: o1_def)
  have "map_of [(''Yes'', 1 :: int), (''No'', 0)] ''Yes''
          = Some (option_vote_count same_text_db 2)
        \<and> (1::int) + option_vote_count same_text_db 1 \<le> count_poll_votes same_text_db 1"
    using vote_distribution_same_text [OF pk every once same_text_analytics m1 m2 ids texts]
    by (simp add: t i winner)
  then show ?thesis
    using pk once winner by (simp add: same_text_analytics same_text_option_votes same_text_count)
qed

text \<open>
  The same store with an engine that returns the groups in the opposite order: now the
  first option with the text Yes comes last, and its two votes are the ones that count.
\<close>

lemma same_text_other_order:
  "get_vote_distribution (same_text_db\<lparr>db_group_order := rev\<rparr>) 1 = [(''No'', 0), (''Yes'', 2)]"
  by (simp add: get_vote_distribution_def vote_distribution_rows_def vote_distribution_groups_def
      group_vote_count_def dict_of_rows_def same_text_db_def)

end
